theory Spec2Isabelle
  imports Complex_Main "HOL-Library.AList"
begin

section \<open>Numbers\<close>

text \<open>
  A value of the source's type \<open>number\<close> is \<open>NaN\<close>, one of the two infinities, or a finite
  value. Finite values are carried as reals: the arithmetic below is the IEEE arithmetic of the
  source with the special values written out, without the rounding of finite results and
  without the sign of zero.
\<close>

datatype number = NaN | PInf | NInf | Fin real

fun jneg :: "number \<Rightarrow> number" where
  "jneg NaN = NaN"
| "jneg PInf = NInf"
| "jneg NInf = PInf"
| "jneg (Fin a) = Fin (- a)"

fun jadd :: "number \<Rightarrow> number \<Rightarrow> number" where
  "jadd NaN _ = NaN"
| "jadd _ NaN = NaN"
| "jadd PInf NInf = NaN"
| "jadd NInf PInf = NaN"
| "jadd PInf _ = PInf"
| "jadd _ PInf = PInf"
| "jadd NInf _ = NInf"
| "jadd _ NInf = NInf"
| "jadd (Fin a) (Fin b) = Fin (a + b)"

definition jsub :: "number \<Rightarrow> number \<Rightarrow> number" where
  "jsub a b = jadd a (jneg b)"

text \<open>The sign of a number: \<open>1\<close>, \<open>-1\<close>, or \<open>0\<close> for zero and \<open>NaN\<close>.\<close>

fun jsign :: "number \<Rightarrow> int" where
  "jsign NaN = 0"
| "jsign PInf = 1"
| "jsign NInf = - 1"
| "jsign (Fin a) = (if a > 0 then 1 else if a < 0 then - 1 else 0)"

definition infOfSign :: "int \<Rightarrow> number" where
  "infOfSign s = (if s > 0 then PInf else if s < 0 then NInf else NaN)"

fun jmul :: "number \<Rightarrow> number \<Rightarrow> number" where
  "jmul NaN _ = NaN"
| "jmul _ NaN = NaN"
| "jmul (Fin a) (Fin b) = Fin (a * b)"
| "jmul a b = infOfSign (jsign a * jsign b)"

fun jdiv :: "number \<Rightarrow> number \<Rightarrow> number" where
  "jdiv NaN _ = NaN"
| "jdiv _ NaN = NaN"
| "jdiv (Fin a) (Fin b) = (if b = 0 then infOfSign (jsign (Fin a)) else Fin (a / b))"
| "jdiv (Fin a) _ = Fin 0"
| "jdiv a (Fin b) = (if b < 0 then jneg a else a)"
| "jdiv _ _ = NaN"

fun jle :: "number \<Rightarrow> number \<Rightarrow> bool" where
  "jle NaN _ = False"
| "jle _ NaN = False"
| "jle NInf _ = True"
| "jle _ PInf = True"
| "jle PInf _ = False"
| "jle _ NInf = False"
| "jle (Fin a) (Fin b) = (a \<le> b)"

fun jlt :: "number \<Rightarrow> number \<Rightarrow> bool" where
  "jlt NaN _ = False"
| "jlt _ NaN = False"
| "jlt PInf _ = False"
| "jlt _ NInf = False"
| "jlt NInf _ = True"
| "jlt _ PInf = True"
| "jlt (Fin a) (Fin b) = (a < b)"

text \<open>\<open>Math.max\<close> and \<open>Math.min\<close> of two arguments: \<open>NaN\<close> if either is.\<close>

definition jmax :: "number \<Rightarrow> number \<Rightarrow> number" where
  "jmax a b = (if a = NaN \<or> b = NaN then NaN else if jle a b then b else a)"

definition jmin :: "number \<Rightarrow> number \<Rightarrow> number" where
  "jmin a b = (if a = NaN \<or> b = NaN then NaN else if jle a b then a else b)"

fun jfloor :: "number \<Rightarrow> number" where
  "jfloor (Fin a) = Fin (of_int \<lfloor>a\<rfloor>)"
| "jfloor a = a"

fun jceil :: "number \<Rightarrow> number" where
  "jceil (Fin a) = Fin (of_int \<lceil>a\<rceil>)"
| "jceil a = a"

fun jabs :: "number \<Rightarrow> number" where
  "jabs NaN = NaN"
| "jabs PInf = PInf"
| "jabs NInf = PInf"
| "jabs (Fin a) = Fin \<bar>a\<bar>"

text \<open>The remainder operator \<open>%\<close>: the result has the sign of the dividend.\<close>

definition rtrunc :: "real \<Rightarrow> int" where
  "rtrunc a = (if a < 0 then \<lceil>a\<rceil> else \<lfloor>a\<rfloor>)"

fun jmod :: "number \<Rightarrow> number \<Rightarrow> number" where
  "jmod NaN _ = NaN"
| "jmod _ NaN = NaN"
| "jmod PInf _ = NaN"
| "jmod NInf _ = NaN"
| "jmod (Fin a) PInf = Fin a"
| "jmod (Fin a) NInf = Fin a"
| "jmod (Fin a) (Fin b) = (if b = 0 then NaN else Fin (a - b * of_int (rtrunc (a / b))))"

fun jlog2 :: "number \<Rightarrow> number" where
  "jlog2 NaN = NaN"
| "jlog2 PInf = PInf"
| "jlog2 NInf = NaN"
| "jlog2 (Fin a) = (if a < 0 then NaN else if a = 0 then NInf else Fin (log 2 a))"

fun isFinite :: "number \<Rightarrow> bool" where
  "isFinite (Fin a) = True"
| "isFinite _ = False"

text \<open>A number is falsy when it is zero or \<open>NaN\<close>.\<close>

definition truthy :: "number \<Rightarrow> bool" where
  "truthy a = (a \<noteq> NaN \<and> a \<noteq> Fin 0)"

section \<open>Grid lines\<close>

type_synonym point = "number \<times> number"

record gridline =
  path :: "point \<times> point"
  major :: bool

type_synonym bounds = "number \<times> number \<times> number \<times> number"

definition MAX_cap :: nat where
  "MAX_cap = 400"

definition eps9 :: number where
  "eps9 = Fin (1 / 10 ^ 9)"

text \<open>\<open>const safeStep = step || Math.max(dx, dy) / 10\<close>; an absent step is \<open>None\<close>.\<close>

definition safeStepOf :: "bounds \<Rightarrow> number option \<Rightarrow> number" where
  "safeStepOf b step =
     (case b of (minX, minY, maxX, maxY) \<Rightarrow>
        (case step of
           Some s \<Rightarrow> if truthy s then s else jdiv (jmax (jsub maxX minX) (jsub maxY minY)) (Fin 10)
         | None \<Rightarrow> jdiv (jmax (jsub maxX minX) (jsub maxY minY)) (Fin 10)))"

definition isMajor :: "number \<Rightarrow> number \<Rightarrow> bool" where
  "isMajor c safeStep = jlt (jabs (jmod (jdiv c safeStep) (Fin 5))) eps9"

text \<open>
  The two \<open>for\<close> loops. Each carries the loop variable, the shared counter and the list of
  lines; \<open>cap\<close> is the cap the counter is compared with (\<open>MAX\<close>, then \<open>MAX * 2\<close>). Nothing in
  the loop header bounds the number of rounds, so the loops are partial functions.
\<close>

partial_function (option) vloop ::
  "number \<Rightarrow> number \<Rightarrow> number \<Rightarrow> number \<Rightarrow> nat \<Rightarrow> number \<Rightarrow> nat \<Rightarrow> gridline list
     \<Rightarrow> (gridline list \<times> nat) option" where
  "vloop safeStep startY endY endX cap x count lines =
     (if jle x (jadd endX eps9)
      then (if Suc count > cap
            then Some (lines @ [\<lparr>path = ((x, startY), (x, endY)), major = isMajor x safeStep\<rparr>],
                       Suc count)
            else vloop safeStep startY endY endX cap (jadd x safeStep) (Suc count)
                   (lines @ [\<lparr>path = ((x, startY), (x, endY)), major = isMajor x safeStep\<rparr>]))
      else Some (lines, count))"

partial_function (option) hloop ::
  "number \<Rightarrow> number \<Rightarrow> number \<Rightarrow> number \<Rightarrow> nat \<Rightarrow> number \<Rightarrow> nat \<Rightarrow> gridline list
     \<Rightarrow> (gridline list \<times> nat) option" where
  "hloop safeStep startX endX endY cap y count lines =
     (if jle y (jadd endY eps9)
      then (if Suc count > cap
            then Some (lines @ [\<lparr>path = ((startX, y), (endX, y)), major = isMajor y safeStep\<rparr>],
                       Suc count)
            else hloop safeStep startX endX endY cap (jadd y safeStep) (Suc count)
                   (lines @ [\<lparr>path = ((startX, y), (endX, y)), major = isMajor y safeStep\<rparr>]))
      else Some (lines, count))"

definition buildGridPaths :: "bounds \<Rightarrow> number option \<Rightarrow> gridline list option" where
  "buildGridPaths b step =
     (case b of (minX, minY, maxX, maxY) \<Rightarrow>
        let safeStep = safeStepOf b step;
            startX = jmul (jfloor (jdiv minX safeStep)) safeStep;
            endX = jmul (jceil (jdiv maxX safeStep)) safeStep;
            startY = jmul (jfloor (jdiv minY safeStep)) safeStep;
            endY = jmul (jceil (jdiv maxY safeStep)) safeStep
        in (case vloop safeStep startY endY endX MAX_cap startX 0 [] of
              None \<Rightarrow> None
            | Some (lines1, count1) \<Rightarrow>
                (case hloop safeStep startX endX endY (MAX_cap * 2) startY count1 lines1 of
                   None \<Rightarrow> None
                 | Some (lines2, count2) \<Rightarrow> Some lines2)))"

text \<open>The caller's argument \<open>gridStep || undefined\<close>, where \<open>gridStep\<close> is a number or \<open>null\<close>.\<close>

definition gridStepArg :: "number option \<Rightarrow> number option" where
  "gridStepArg gridStep =
     (case gridStep of None \<Rightarrow> None | Some g \<Rightarrow> if truthy g then Some g else None)"

section \<open>Strings\<close>

text \<open>
  A string is a list of characters, one \<open>char\<close> for each code unit below 256. The functions
  below are the string methods of the source's runtime on such strings.
\<close>

definition isWhite :: "char \<Rightarrow> bool" where
  "isWhite c = (c \<in> set [CHR 0x09, CHR 0x0A, CHR 0x0B, CHR 0x0C, CHR 0x0D, CHR 0x20, CHR 0xA0])"

definition trim :: "string \<Rightarrow> string" where
  "trim s = rev (dropWhile isWhite (rev (dropWhile isWhite s)))"

text \<open>
  \<open>toLowerCase\<close> changes the letters \<open>A\<close> to \<open>Z\<close>. Other letters are left as they are: none
  of them lowers to a character of the column names the result is compared with.
\<close>

definition lowerChar :: "char \<Rightarrow> char" where
  "lowerChar c =
     (case map_of (zip ''ABCDEFGHIJKLMNOPQRSTUVWXYZ'' ''abcdefghijklmnopqrstuvwxyz'') c of
        Some l \<Rightarrow> l
      | None \<Rightarrow> c)"

definition toLowerCase :: "string \<Rightarrow> string" where
  "toLowerCase s = map lowerChar s"

text \<open>\<open>s.split(d)\<close> for a separator of one character: always at least one piece.\<close>

fun splitOn :: "char \<Rightarrow> string \<Rightarrow> string list" where
  "splitOn d [] = [[]]"
| "splitOn d (c # cs) =
     (if c = d then [] # splitOn d cs
      else (case splitOn d cs of p # ps \<Rightarrow> (c # p) # ps | [] \<Rightarrow> [[c]]))"

text \<open>\<open>s.split(/\r?\n/)\<close>: a line feed separates, and takes a carriage return before it along.\<close>

fun splitLines :: "string \<Rightarrow> string list" where
  "splitLines [] = [[]]"
| "splitLines [c] = (if c = CHR 0x0A then [[], []] else [[c]])"
| "splitLines (c # d # cs) =
     (if c = CHR 0x0D \<and> d = CHR 0x0A then [] # splitLines cs
      else if c = CHR 0x0A then [] # splitLines (d # cs)
      else (case splitLines (d # cs) of p # ps \<Rightarrow> (c # p) # ps | [] \<Rightarrow> [[c]]))"


text \<open>\<open>xs.indexOf(v)\<close>: the result \<open>-1\<close> is \<open>None\<close>.\<close>

fun indexOf :: "'a list \<Rightarrow> 'a \<Rightarrow> nat option" where
  "indexOf [] v = None"
| "indexOf (x # xs) v = (if x = v then Some 0 else map_option Suc (indexOf xs v))"

text \<open>\<open>xs[i]\<close>: reading past the end gives \<open>undefined\<close>, which is \<open>None\<close>.\<close>

definition elemAt :: "'a list \<Rightarrow> nat \<Rightarrow> 'a option" where
  "elemAt xs i = (if i < length xs then Some (xs ! i) else None)"

definition isDigit :: "char \<Rightarrow> bool" where
  "isDigit c = (c \<in> set ''0123456789'')"

definition digitVal :: "char \<Rightarrow> nat" where
  "digitVal c = of_char c - 48"

definition natOfDigits :: "string \<Rightarrow> nat" where
  "natOfDigits ds = foldl (\<lambda>n c. 10 * n + digitVal c) 0 ds"

definition digitChar :: "nat \<Rightarrow> char" where
  "digitChar n = ''0123456789'' ! (n mod 10)"

text \<open>\<open>String(n)\<close> for a natural number.\<close>

function natToString :: "nat \<Rightarrow> string" where
  "natToString n = (if n < 10 then [digitChar n] else natToString (n div 10) @ [digitChar (n mod 10)])"
  by pat_completeness auto
termination
  by (relation "measure (\<lambda>n. n)") auto

declare natToString.simps [simp del]

definition pow10 :: "int \<Rightarrow> real" where
  "pow10 e = (if e \<ge> 0 then 10 ^ nat e else 1 / 10 ^ nat (- e))"

text \<open>The exponent part of a decimal literal; a part that is not well formed counts as absent.\<close>

definition parseExp :: "string \<Rightarrow> int" where
  "parseExp r =
     (case r of
        [] \<Rightarrow> 0
      | c # t \<Rightarrow>
          if c = CHR ''e'' \<or> c = CHR ''E'' then
            (case t of
               [] \<Rightarrow> 0
             | d # u \<Rightarrow>
                 if d = CHR ''-'' then - int (natOfDigits (takeWhile isDigit u))
                 else if d = CHR ''+'' then int (natOfDigits (takeWhile isDigit u))
                 else int (natOfDigits (takeWhile isDigit t)))
          else 0)"

text \<open>
  \<open>parseFloat\<close>: white space is skipped, then the longest prefix that is a decimal literal
  (a sign, \<open>Infinity\<close>, or digits with an optional fraction and exponent) gives the value;
  with no such prefix the result is \<open>NaN\<close>. The value is the exact decimal value.
\<close>

definition parseMantissa :: "bool \<Rightarrow> string \<Rightarrow> number" where
  "parseMantissa neg u =
     (if take 8 u = ''Infinity'' then (if neg then NInf else PInf)
      else
        let ip = takeWhile isDigit u;
            r1 = dropWhile isDigit u;
            fp = (case r1 of [] \<Rightarrow> [] | c # r \<Rightarrow> if c = CHR ''.'' then takeWhile isDigit r else []);
            r2 = (case r1 of [] \<Rightarrow> [] | c # r \<Rightarrow> if c = CHR ''.'' then dropWhile isDigit r else r1)
        in if ip = [] \<and> fp = [] then NaN
           else Fin ((if neg then - 1 else 1) * (real (natOfDigits (ip @ fp)) / 10 ^ length fp)
                     * pow10 (parseExp r2)))"

definition parseFloat :: "string \<Rightarrow> number" where
  "parseFloat s =
     (case dropWhile isWhite s of
        [] \<Rightarrow> NaN
      | c # r \<Rightarrow>
          if c = CHR ''-'' then parseMantissa True r
          else if c = CHR ''+'' then parseMantissa False r
          else parseMantissa False (c # r))"

text \<open>\<open>parseFloat\<close> of an array element: \<open>undefined\<close> reads as the text \<open>undefined\<close>.\<close>

definition parseFloatU :: "string option \<Rightarrow> number" where
  "parseFloatU v = (case v of None \<Rightarrow> NaN | Some s \<Rightarrow> parseFloat s)"

text \<open>
  \<open>n.toString()\<close> in the decimal notation the runtime uses for magnitudes from \<open>1e-6\<close> up to
  \<open>1e21\<close>: the integer part, then the digits of the fraction. The exponent notation used
  outside that range is not modelled, and the fraction is the exact expansion cut after 17
  digits where the runtime prints the shortest digits that read back as the same value.
\<close>

function fracDigits :: "nat \<Rightarrow> real \<Rightarrow> string" where
  "fracDigits n f =
     (if n = 0 \<or> f = 0 then []
      else digitChar (nat \<lfloor>f * 10\<rfloor>) # fracDigits (n - 1) (f * 10 - of_int \<lfloor>f * 10\<rfloor>))"
  by pat_completeness auto
termination
  by (relation "measure (\<lambda>(n, f). n)") auto

declare fracDigits.simps [simp del]

definition numToString :: "number \<Rightarrow> string" where
  "numToString v =
     (case v of
        NaN \<Rightarrow> ''NaN''
      | PInf \<Rightarrow> ''Infinity''
      | NInf \<Rightarrow> ''-Infinity''
      | Fin a \<Rightarrow>
          (if a < 0 then ''-'' else [])
          @ natToString (nat \<lfloor>\<bar>a\<bar>\<rfloor>)
          @ (if \<bar>a\<bar> = of_int \<lfloor>\<bar>a\<bar>\<rfloor> then []
             else ''.'' @ fracDigits 17 (\<bar>a\<bar> - of_int \<lfloor>\<bar>a\<bar>\<rfloor>)))"


section \<open>The tabular parser\<close>

text \<open>
  A row of the dataset. The string fields are read from an array by index, so each of them is
  \<open>undefined\<close> (\<open>None\<close>) when the row is shorter than the header.
\<close>

record RocketData =
  id_str :: "string option"
  latentx1 :: number
  latentx2 :: number
  design_var_1 :: "string option"
  design_var_2 :: "string option"
  feasible :: bool

text \<open>The error thrown when a coordinate column is missing.\<close>

datatype error = SchemaError

text \<open>\<open>/^true|1$/i.test(s)\<close>: \<open>s\<close> begins with \<open>true\<close> in any case, or ends with \<open>1\<close>.\<close>

definition feasibleTest :: "string \<Rightarrow> bool" where
  "feasibleTest s =
     ((length s \<ge> 4 \<and> s ! 0 \<in> set ''tT'' \<and> s ! 1 \<in> set ''rR'' \<and> s ! 2 \<in> set ''uU'' \<and> s ! 3 \<in> set ''eE'')
      \<or> (s \<noteq> [] \<and> last s = CHR ''1''))"

text \<open>The feasible flag of a row: \<open>ifeas >= 0 ? (cols[ifeas] ?? '') : ''\<close>, trimmed and tested.\<close>

definition rawFeasOf :: "nat option \<Rightarrow> string list \<Rightarrow> string" where
  "rawFeasOf ifeas cols =
     (case ifeas of
        None \<Rightarrow> []
      | Some k \<Rightarrow> (case elemAt cols k of None \<Rightarrow> [] | Some v \<Rightarrow> v))"

text \<open>The column indices found in the header, with the delimiter.\<close>

record columns =
  delim :: char
  ix :: nat
  iy :: nat
  iid :: "nat option"
  idv1 :: "nat option"
  idv2 :: "nat option"
  ifeas :: "nat option"

text \<open>The body of the row loop: the record pushed for line \<open>i\<close>, or nothing (\<open>continue\<close>).\<close>

definition rowOf :: "columns \<Rightarrow> nat \<Rightarrow> string \<Rightarrow> RocketData option" where
  "rowOf h i line =
     (let cols = map trim (splitOn (delim h) line);
          x = parseFloatU (elemAt cols (ix h));
          y = parseFloatU (elemAt cols (iy h))
      in if \<not> isFinite x \<or> \<not> isFinite y then None
         else Some \<lparr>id_str = (case iid h of Some k \<Rightarrow> elemAt cols k | None \<Rightarrow> Some (natToString (i - 1))),
                    latentx1 = x,
                    latentx2 = y,
                    design_var_1 = (case idv1 h of Some k \<Rightarrow> elemAt cols k | None \<Rightarrow> Some []),
                    design_var_2 = (case idv2 h of Some k \<Rightarrow> elemAt cols k | None \<Rightarrow> Some []),
                    feasible = feasibleTest (trim (rawFeasOf (ifeas h) cols))\<rparr>)"

text \<open>The loop \<open>for (let i = 1; i < lines.length; i++)\<close> over the lines after the header.\<close>

fun rowsLoop :: "columns \<Rightarrow> nat \<Rightarrow> string list \<Rightarrow> RocketData list \<Rightarrow> RocketData list" where
  "rowsLoop h i [] rows = rows"
| "rowsLoop h i (l # ls) rows =
     (case rowOf h i l of
        None \<Rightarrow> rowsLoop h (Suc i) ls rows
      | Some r \<Rightarrow> rowsLoop h (Suc i) ls (rows @ [r]))"

definition delimOf :: "string \<Rightarrow> char" where
  "delimOf text =
     (if CHR 0x09 \<in> set text then CHR 0x09 else if CHR '';'' \<in> set text then CHR '';'' else CHR '','')"

definition linesOf :: "string \<Rightarrow> string list" where
  "linesOf text = filter (\<lambda>l. l \<noteq> []) (splitLines text)"

definition headerOf :: "string \<Rightarrow> string \<Rightarrow> string list" where
  "headerOf text l = map toLowerCase (map trim (splitOn (delimOf text) l))"

definition columnsOf :: "string \<Rightarrow> string list \<Rightarrow> nat \<Rightarrow> nat \<Rightarrow> columns" where
  "columnsOf text lower jx jy =
     \<lparr>delim = delimOf text, ix = jx, iy = jy,
      iid = indexOf lower ''id'',
      idv1 = indexOf lower ''design_var_1'',
      idv2 = indexOf lower ''design_var_2'',
      ifeas = indexOf lower ''feasible''\<rparr>"

definition parseCSV :: "string \<Rightarrow> error + RocketData list" where
  "parseCSV text =
     (case linesOf text of
        [] \<Rightarrow> Inr []
      | l0 # ls \<Rightarrow>
          let lower = headerOf text l0
          in (case (indexOf lower ''latentx1'', indexOf lower ''latentx2'') of
                (Some jx, Some jy) \<Rightarrow> Inr (rowsLoop (columnsOf text lower jx jy) 1 ls [])
              | _ \<Rightarrow> Inl SchemaError))"

section \<open>The viewport fit\<close>

record ViewState =
  target :: "number \<times> number \<times> number"
  zoom :: number
  bounds :: "bounds option"

text \<open>\<open>Math.min(...xs)\<close> and \<open>Math.max(...xs)\<close>: with no argument, the infinities.\<close>

definition mathMin :: "number list \<Rightarrow> number" where
  "mathMin xs = foldl jmin PInf xs"

definition mathMax :: "number list \<Rightarrow> number" where
  "mathMax xs = foldl jmax NInf xs"

text \<open>
  \<open>zoomToFit\<close>. The size of the window is read from the environment and is a parameter
  here; the margin is \<open>0.1\<close> when the caller gives none.
\<close>

definition zoomToFit :: "int \<Rightarrow> int \<Rightarrow> RocketData list \<Rightarrow> number option \<Rightarrow> ViewState" where
  "zoomToFit innerWidth innerHeight data margin =
     (let m = (case margin of None \<Rightarrow> Fin (1 / 10) | Some v \<Rightarrow> v);
          xs = map latentx1 data;
          ys = map latentx2 data;
          minX = mathMin xs;
          maxX = mathMax xs;
          minY = mathMin ys;
          maxY = mathMax ys;
          w = jmax (Fin (1 / 10 ^ 9)) (jsub maxX minX);
          h = jmax (Fin (1 / 10 ^ 9)) (jsub maxY minY);
          cx = jdiv (jadd minX maxX) (Fin 2);
          cy = jdiv (jadd minY maxY) (Fin 2);
          vw = jmax (Fin 1) (Fin (of_int innerWidth));
          vh = jmax (Fin 1) (Fin (of_int innerHeight));
          span = jmul (jmax w h) (jadd (Fin 1) m);
          screenSpan = jmin vw vh;
          scale = jdiv screenSpan span
      in \<lparr>target = (cx, cy, Fin 0),
          zoom = jlog2 (jmax scale (Fin (1 / 10 ^ 6))),
          bounds = Some (minX, minY, maxX, maxY)\<rparr>)"

section \<open>The selection\<close>

text \<open>
  The selection is a \<open>Map\<close> from id to record. It is kept as an association list in insertion
  order: \<open>AList.update\<close> replaces the value of a key that is present where it stands and puts
  a new key at the end, as \<open>Map.set\<close> does.
\<close>

type_synonym selection = "(string option \<times> RocketData) list"





text \<open>
  Modelled from the spec: the handler that ends a drag gesture and adds records to the
  selection is not among the sources, which only declare the selection state, clear it and
  export it. After the spec, the finished gesture gives a rectangle in world coordinates, and
  every record of the dataset whose point lies within it is put into the selection under its
  id; nothing is removed.
\<close>

definition inRect :: "bounds \<Rightarrow> RocketData \<Rightarrow> bool" where
  "inRect r d =
     (case r of (x0, y0, x1, y1) \<Rightarrow>
        jle x0 (latentx1 d) \<and> jle (latentx1 d) x1 \<and> jle y0 (latentx2 d) \<and> jle (latentx2 d) y1)"

text \<open>
  Modelled from the spec: the union that ends a gesture. The records in the rectangle are put
  into the selection one after the other, in the order of the dataset.
\<close>

definition selectRect :: "bounds \<Rightarrow> RocketData list \<Rightarrow> selection \<Rightarrow> selection" where
  "selectRect r data selected =
     foldl (\<lambda>s d. AList.update (id_str d) d s) selected (filter (inRect r) data)"

text \<open>
  A text that comes back unchanged from the export and the parser as one field: it has no
  comma, semicolon, tab or line feed, and no white space at either end.
\<close>

definition cleanField :: "string \<Rightarrow> bool" where
  "cleanField s =
     (CHR '','' \<notin> set s \<and> CHR '';'' \<notin> set s \<and> CHR 0x09 \<notin> set s \<and> CHR 0x0A \<notin> set s
      \<and> trim s = s)"


text \<open>
  A record that the export writes as six clean fields: its three texts are defined and clean,
  and its coordinates are finite and read back from their printed form.
\<close>

definition exportable :: "RocketData \<Rightarrow> bool" where
  "exportable d =
     ((case id_str d of None \<Rightarrow> False | Some s \<Rightarrow> cleanField s)
      \<and> (case design_var_1 d of None \<Rightarrow> False | Some s \<Rightarrow> cleanField s)
      \<and> (case design_var_2 d of None \<Rightarrow> False | Some s \<Rightarrow> cleanField s)
      \<and> isFinite (latentx1 d) \<and> isFinite (latentx2 d)
      \<and> parseFloat (numToString (latentx1 d)) = latentx1 d
      \<and> parseFloat (numToString (latentx2 d)) = latentx2 d)"


section \<open>The grid builder: the loops end\<close>

text \<open>Each loop returns: the counter rises in every round and the cap ends the loop.\<close>

lemma vloop_total:
  "\<exists>ls c. vloop s sy ey ex cap x count lines = Some (ls, c)"
proof (induction "cap - count" arbitrary: x count lines)
  case 0
  then show ?case by (subst vloop.simps) auto
next
  case (Suc n)
  then have "n = cap - Suc count" by simp
  from Suc.hyps(1)[OF this] show ?case by (subst vloop.simps) auto
qed

lemma hloop_total:
  "\<exists>ls c. hloop s sx ex ey cap y count lines = Some (ls, c)"
proof (induction "cap - count" arbitrary: y count lines)
  case 0
  then show ?case by (subst hloop.simps) auto
next
  case (Suc n)
  then have "n = cap - Suc count" by simp
  from Suc.hyps(1)[OF this] show ?case by (subst hloop.simps) auto
qed

text \<open>The counter counts the lines pushed, and ends at most one above the cap.\<close>

lemma vloop_count:
  "vloop s sy ey ex cap x count lines = Some (ls, c) \<Longrightarrow>
     length ls = length lines + (c - count) \<and> count \<le> c \<and> c \<le> max (Suc count) (Suc cap)"
proof (induction "cap - count" arbitrary: x count lines)
  case 0
  from 0(2) show ?case using 0(1) by (subst (asm) vloop.simps) (auto split: if_splits)
next
  case (Suc n)
  then have n: "n = cap - Suc count" by simp
  show ?case
  proof (cases "jle x (jadd ex eps9)")
    case False
    with Suc.prems show ?thesis by (subst (asm) vloop.simps) simp
  next
    case True
    from Suc.hyps(2) have nc: "\<not> Suc count > cap" by simp
    let ?l = "lines @ [\<lparr>path = ((x, sy), (x, ey)), major = isMajor x s\<rparr>]"
    from Suc.prems True nc have "vloop s sy ey ex cap (jadd x s) (Suc count) ?l = Some (ls, c)"
      by (subst (asm) vloop.simps) simp
    from Suc.hyps(1)[OF n this] nc show ?thesis by auto
  qed
qed

lemma hloop_count:
  "hloop s sx ex ey cap y count lines = Some (ls, c) \<Longrightarrow>
     length ls = length lines + (c - count) \<and> count \<le> c \<and> c \<le> max (Suc count) (Suc cap)"
proof (induction "cap - count" arbitrary: y count lines)
  case 0
  from 0(2) show ?case using 0(1) by (subst (asm) hloop.simps) (auto split: if_splits)
next
  case (Suc n)
  then have n: "n = cap - Suc count" by simp
  show ?case
  proof (cases "jle y (jadd ey eps9)")
    case False
    with Suc.prems show ?thesis by (subst (asm) hloop.simps) simp
  next
    case True
    from Suc.hyps(2) have nc: "\<not> Suc count > cap" by simp
    let ?l = "lines @ [\<lparr>path = ((sx, y), (ex, y)), major = isMajor y s\<rparr>]"
    from Suc.prems True nc have "hloop s sx ex ey cap (jadd y s) (Suc count) ?l = Some (ls, c)"
      by (subst (asm) hloop.simps) simp
    from Suc.hyps(1)[OF n this] nc show ?thesis by auto
  qed
qed

text \<open>
  A loop over finite values whose test holds in every round up to the cap runs until the
  counter is one above the cap.
\<close>

lemma vloop_run:
  assumes "\<forall>k \<le> cap - count. a + real k * s \<le> e + 1 / 10 ^ 9" and "count \<le> cap"
  shows "\<exists>ls. vloop (Fin s) sy ey (Fin e) cap (Fin a) count lines = Some (ls, Suc cap)
            \<and> length ls = length lines + (Suc cap - count)"
  using assms
proof (induction "cap - count" arbitrary: a count lines)
  case 0
  then have "count = cap" by simp
  moreover from 0 have "a \<le> e + 1 / 10 ^ 9" by auto
  ultimately show ?case by (subst vloop.simps) (simp add: eps9_def)
next
  case (Suc n)
  then have n: "n = cap - Suc count" and c: "Suc count \<le> cap" by simp_all
  from Suc.prems(1) have a0: "a \<le> e + 1 / 10 ^ 9" by auto
  have "\<forall>k \<le> cap - Suc count. (a + s) + real k * s \<le> e + 1 / 10 ^ 9"
  proof (intro allI impI)
    fix k assume "k \<le> cap - Suc count"
    then have "Suc k \<le> cap - count" using c by simp
    with Suc.prems(1) have "a + real (Suc k) * s \<le> e + 1 / 10 ^ 9" by blast
    then show "(a + s) + real k * s \<le> e + 1 / 10 ^ 9" by (simp add: algebra_simps)
  qed
  from Suc.hyps(1)[OF n this c,
      of "lines @ [\<lparr>path = ((Fin a, sy), (Fin a, ey)), major = isMajor (Fin a) (Fin s)\<rparr>]"]
  show ?case using a0 c by (subst vloop.simps) (auto simp: eps9_def)
qed

lemma hloop_run:
  assumes "\<forall>k \<le> cap - count. a + real k * s \<le> e + 1 / 10 ^ 9" and "count \<le> cap"
  shows "\<exists>ls. hloop (Fin s) sx ex (Fin e) cap (Fin a) count lines = Some (ls, Suc cap)
            \<and> length ls = length lines + (Suc cap - count)"
  using assms
proof (induction "cap - count" arbitrary: a count lines)
  case 0
  then have "count = cap" by simp
  moreover from 0 have "a \<le> e + 1 / 10 ^ 9" by auto
  ultimately show ?case by (subst hloop.simps) (simp add: eps9_def)
next
  case (Suc n)
  then have n: "n = cap - Suc count" and c: "Suc count \<le> cap" by simp_all
  from Suc.prems(1) have a0: "a \<le> e + 1 / 10 ^ 9" by auto
  have "\<forall>k \<le> cap - Suc count. (a + s) + real k * s \<le> e + 1 / 10 ^ 9"
  proof (intro allI impI)
    fix k assume "k \<le> cap - Suc count"
    then have "Suc k \<le> cap - count" using c by simp
    with Suc.prems(1) have "a + real (Suc k) * s \<le> e + 1 / 10 ^ 9" by blast
    then show "(a + s) + real k * s \<le> e + 1 / 10 ^ 9" by (simp add: algebra_simps)
  qed
  from Suc.hyps(1)[OF n this c,
      of "lines @ [\<lparr>path = ((sx, Fin a), (ex, Fin a)), major = isMajor (Fin a) (Fin s)\<rparr>]"]
  show ?case using a0 c by (subst hloop.simps) (auto simp: eps9_def)
qed

text \<open>With a step of zero or \<open>NaN\<close> every start value is \<open>NaN\<close>, and no loop test holds.\<close>

lemma degenerate_start: "s = Fin 0 \<or> s = NaN \<Longrightarrow> jmul (jfloor (jdiv m s)) s = NaN"
  by (cases m) (auto simp: infOfSign_def)

lemma vloop_NaN: "vloop s sy ey ex cap NaN count lines = Some (lines, count)"
  by (subst vloop.simps) simp

lemma hloop_NaN: "hloop s sx ex ey cap NaN count lines = Some (lines, count)"
  by (subst hloop.simps) simp

text \<open>The builder returns, with at most 401 lines from the first loop and 801 in all.\<close>

lemma buildGridPaths_returns: "\<exists>ls. buildGridPaths b step = Some ls"
proof -
  obtain minX minY maxX maxY where b: "b = (minX, minY, maxX, maxY)"
    by (cases b) auto
  define s where "s = safeStepOf b step"
  define startX where "startX = jmul (jfloor (jdiv minX s)) s"
  define endX where "endX = jmul (jceil (jdiv maxX s)) s"
  define startY where "startY = jmul (jfloor (jdiv minY s)) s"
  define endY where "endY = jmul (jceil (jdiv maxY s)) s"
  obtain l1 c1 where v: "vloop s startY endY endX MAX_cap startX 0 [] = Some (l1, c1)"
    using vloop_total by blast
  obtain l2 c2 where h: "hloop s startX endX endY (MAX_cap * 2) startY c1 l1 = Some (l2, c2)"
    using hloop_total by blast
  have "buildGridPaths b step = Some l2"
    using v h by (simp add: buildGridPaths_def b Let_def s_def startX_def endX_def startY_def endY_def)
  then show ?thesis by blast
qed

lemma buildGridPaths_length_le:
  assumes "buildGridPaths b step = Some ls"
  shows "length ls \<le> 801"
proof -
  obtain minX minY maxX maxY where b: "b = (minX, minY, maxX, maxY)"
    by (cases b) auto
  define s where "s = safeStepOf b step"
  define startX where "startX = jmul (jfloor (jdiv minX s)) s"
  define endX where "endX = jmul (jceil (jdiv maxX s)) s"
  define startY where "startY = jmul (jfloor (jdiv minY s)) s"
  define endY where "endY = jmul (jceil (jdiv maxY s)) s"
  obtain l1 c1 where v: "vloop s startY endY endX MAX_cap startX 0 [] = Some (l1, c1)"
    using vloop_total by blast
  obtain l2 c2 where h: "hloop s startX endX endY (MAX_cap * 2) startY c1 l1 = Some (l2, c2)"
    using hloop_total by blast
  have "buildGridPaths b step = Some l2"
    using v h by (simp add: buildGridPaths_def b Let_def s_def startX_def endX_def startY_def endY_def)
  with assms have ls: "ls = l2" by simp
  from vloop_count[OF v] have 1: "length l1 = c1" "c1 \<le> 401" by (auto simp: MAX_cap_def)
  from hloop_count[OF h] 1 have "length l2 \<le> 801" by (auto simp: MAX_cap_def)
  with ls show ?thesis by simp
qed

lemma safeStepOf_gridStepArg: "safeStepOf b (gridStepArg g) = safeStepOf b g"
  by (cases b) (auto simp: safeStepOf_def gridStepArg_def split: option.splits)

section \<open>The grid builder: claims\<close>

text \<open>
  C1. The claim: the builder makes no more than 400 vertical lines and no more than 400
  further horizontal lines, so never more than 800 lines. The counter is compared with the
  cap after the line is pushed, so each loop pushes one line more than its cap: for the
  bounds \<open>(0, 0, 1000, 1000)\<close> and the step \<open>1\<close> the first loop returns 401 lines and the
  builder 801.
\<close>

theorem buildGridPaths_over_cap:
  "(\<exists>l1. vloop (Fin 1) (Fin 0) (Fin 1000) (Fin 1000) MAX_cap (Fin 0) 0 [] = Some (l1, 401)
          \<and> length l1 = 401)
   \<and> map_option length (buildGridPaths (Fin 0, Fin 0, Fin 1000, Fin 1000) (Some (Fin 1))) = Some 801"
proof -
  have s: "safeStepOf (Fin 0, Fin 0, Fin 1000, Fin 1000) (Some (Fin 1)) = Fin 1"
    by (simp add: safeStepOf_def truthy_def)
  have "\<forall>k \<le> MAX_cap - 0. 0 + real k * 1 \<le> 1000 + 1 / 10 ^ 9"
    by (auto simp: MAX_cap_def)
  from vloop_run[OF this, of "Fin 0" "Fin 1000" "[]"]
  obtain l1 where v: "vloop (Fin 1) (Fin 0) (Fin 1000) (Fin 1000) MAX_cap (Fin 0) 0 [] = Some (l1, Suc MAX_cap)"
    and n1: "length l1 = Suc MAX_cap" by auto
  have "\<forall>k \<le> MAX_cap * 2 - Suc MAX_cap. 0 + real k * 1 \<le> 1000 + 1 / 10 ^ 9"
    by (auto simp: MAX_cap_def)
  from hloop_run[OF this, of "Fin 0" "Fin 1000" l1]
  obtain l2 where h: "hloop (Fin 1) (Fin 0) (Fin 1000) (Fin 1000) (MAX_cap * 2) (Fin 0) (Suc MAX_cap) l1
                        = Some (l2, Suc (MAX_cap * 2))"
    and n2: "length l2 = length l1 + (Suc (MAX_cap * 2) - Suc MAX_cap)" by (auto simp: MAX_cap_def)
  have "buildGridPaths (Fin 0, Fin 0, Fin 1000, Fin 1000) (Some (Fin 1)) = Some l2"
    using v h by (simp add: buildGridPaths_def s Let_def)
  then have "map_option length (buildGridPaths (Fin 0, Fin 0, Fin 1000, Fin 1000) (Some (Fin 1))) = Some 801"
    using n1 n2 by (simp add: MAX_cap_def)
  moreover have "\<exists>l1. vloop (Fin 1) (Fin 0) (Fin 1000) (Fin 1000) MAX_cap (Fin 0) 0 [] = Some (l1, 401)
          \<and> length l1 = 401"
    using v n1 by (auto simp: MAX_cap_def)
  ultimately show ?thesis by blast
qed

text \<open>
  C4. The claim: the effective step is the explicit step exactly when that is positive, and
  otherwise a tenth of the larger side of the bounds. The source tests the step for truth
  only: a negative step is used as it is.
\<close>

theorem safeStep_negative_counterexample:
  "safeStepOf (Fin 0, Fin 0, Fin 10, Fin 10) (Some (Fin (- 5))) = Fin (- 5)
   \<and> jdiv (jmax (jsub (Fin 10) (Fin 0)) (jsub (Fin 10) (Fin 0))) (Fin 10) = Fin 1"
  by (simp add: safeStepOf_def truthy_def jmax_def jsub_def)

text \<open>
  C4, amended. The effective step is the explicit step when one is given that is neither zero
  nor \<open>NaN\<close> (negative and infinite steps included); when the step is absent, zero or \<open>NaN\<close>
  it is a tenth of the larger side of the bounds.
\<close>

theorem safeStep_effective:
  "(\<forall>s. step = Some s \<and> s \<noteq> NaN \<and> s \<noteq> Fin 0 \<longrightarrow> safeStepOf (minX, minY, maxX, maxY) step = s) \<and>
   (step = None \<or> step = Some NaN \<or> step = Some (Fin 0) \<longrightarrow>
      safeStepOf (minX, minY, maxX, maxY) step
        = jdiv (jmax (jsub maxX minX) (jsub maxY minY)) (Fin 10))"
  by (auto simp: safeStepOf_def truthy_def)

theorem safeStep_effective_witness:
  "safeStepOf (Fin 0, Fin 0, Fin 10, Fin 20) (Some (Fin 5)) = Fin 5
   \<and> safeStepOf (Fin 0, Fin 0, Fin 10, Fin 20) None = Fin 2"
  using safeStep_effective [of "Some (Fin 5)" "Fin 0" "Fin 0" "Fin 10" "Fin 20"]
    safeStep_effective [of None "Fin 0" "Fin 0" "Fin 10" "Fin 20"]
  by (simp add: jmax_def jsub_def)


text \<open>
  C10. The builder returns for every bounds and every step, with a list of at most 801 lines:
  the cap on the counter ends each loop. With the step \<open>-5\<close> on the bounds \<open>(0, 0, 10, 10)\<close>
  the loop variable moves away from the end bound and both loops run into the cap. When no
  usable step is given and the larger side of the bounds is zero or \<open>NaN\<close>, the step is
  zero or \<open>NaN\<close> and no loop runs a round.
\<close>

theorem buildGridPaths_terminates:
  "(\<exists>ls. buildGridPaths (minX, minY, maxX, maxY) step = Some ls \<and> length ls \<le> 801)
   \<and> map_option length (buildGridPaths (Fin 0, Fin 0, Fin 10, Fin 10) (Some (Fin (- 5)))) = Some 801
   \<and> ((step = None \<or> step = Some (Fin 0) \<or> step = Some NaN)
        \<and> (jmax (jsub maxX minX) (jsub maxY minY) = Fin 0
             \<or> jmax (jsub maxX minX) (jsub maxY minY) = NaN)
      \<longrightarrow> buildGridPaths (minX, minY, maxX, maxY) step = Some [])"
proof (intro conjI impI)
  show "\<exists>ls. buildGridPaths (minX, minY, maxX, maxY) step = Some ls \<and> length ls \<le> 801"
    using buildGridPaths_returns buildGridPaths_length_le by blast
next
  have s: "safeStepOf (Fin 0, Fin 0, Fin 10, Fin 10) (Some (Fin (- 5))) = Fin (- 5)"
    by (simp add: safeStepOf_def truthy_def)
  have "\<forall>k \<le> MAX_cap - 0. 0 + real k * (- 5) \<le> 10 + 1 / 10 ^ 9"
    by (auto simp: MAX_cap_def)
  from vloop_run[OF this, of "Fin 0" "Fin 10" "[]"]
  obtain l1 where v: "vloop (Fin (- 5)) (Fin 0) (Fin 10) (Fin 10) MAX_cap (Fin 0) 0 [] = Some (l1, Suc MAX_cap)"
    and n1: "length l1 = Suc MAX_cap" by auto
  have "\<forall>k \<le> MAX_cap * 2 - Suc MAX_cap. 0 + real k * (- 5) \<le> 10 + 1 / 10 ^ 9"
    by (auto simp: MAX_cap_def)
  from hloop_run[OF this, of "Fin 0" "Fin 10" l1]
  obtain l2 where h: "hloop (Fin (- 5)) (Fin 0) (Fin 10) (Fin 10) (MAX_cap * 2) (Fin 0) (Suc MAX_cap) l1
                        = Some (l2, Suc (MAX_cap * 2))"
    and n2: "length l2 = length l1 + (Suc (MAX_cap * 2) - Suc MAX_cap)" by (auto simp: MAX_cap_def)
  have "buildGridPaths (Fin 0, Fin 0, Fin 10, Fin 10) (Some (Fin (- 5))) = Some l2"
    using v h by (simp add: buildGridPaths_def s Let_def)
  then show "map_option length (buildGridPaths (Fin 0, Fin 0, Fin 10, Fin 10) (Some (Fin (- 5)))) = Some 801"
    using n1 n2 by (simp add: MAX_cap_def)
next
  assume a: "(step = None \<or> step = Some (Fin 0) \<or> step = Some NaN)
        \<and> (jmax (jsub maxX minX) (jsub maxY minY) = Fin 0
             \<or> jmax (jsub maxX minX) (jsub maxY minY) = NaN)"
  then have "safeStepOf (minX, minY, maxX, maxY) step
               = jdiv (jmax (jsub maxX minX) (jsub maxY minY)) (Fin 10)"
    by (auto simp: safeStepOf_def truthy_def)
  with a have s: "safeStepOf (minX, minY, maxX, maxY) step = Fin 0
                  \<or> safeStepOf (minX, minY, maxX, maxY) step = NaN"
    by auto
  show "buildGridPaths (minX, minY, maxX, maxY) step = Some []"
    by (simp add: buildGridPaths_def Let_def degenerate_start[OF s] vloop_NaN hloop_NaN)
qed

theorem buildGridPaths_terminates_witness:
  "buildGridPaths (Fin 3, Fin 4, Fin 3, Fin 4) None = Some []"
  using buildGridPaths_terminates [of "Fin 3" "Fin 4" "Fin 3" "Fin 4" None]
  by (simp add: jmax_def jsub_def)

section \<open>The tabular parser: claims\<close>

lemmas parse_eval = parseCSV_def linesOf_def headerOf_def delimOf_def columnsOf_def rowOf_def
  Let_def trim_def isWhite_def toLowerCase_def lowerChar_def elemAt_def parseFloatU_def
  parseFloat_def parseMantissa_def parseExp_def pow10_def isDigit_def digitVal_def
  natOfDigits_def feasibleTest_def rawFeasOf_def natToString.simps digitChar_def

lemma indexOf_None_iff: "indexOf xs v = None \<longleftrightarrow> v \<notin> set xs"
  by (induction xs) auto

text \<open>
  C3. The claim: parsing fails with the schema error whenever the header lacks one of the two
  coordinate columns, empty or blank input included. The source returns the empty dataset at
  once when the text has no line that is not empty.
\<close>

theorem parseCSV_empty_counterexample: "parseCSV [] = Inr []"
  by (simp add: parseCSV_def linesOf_def)

text \<open>
  C3, amended. When the text has a line that is not empty and the first such line, taken as the
  header, lacks \<open>latentx1\<close> or \<open>latentx2\<close> (in any case), parsing fails with the schema error;
  when the text has no such line (it is empty or made of line breaks only), parsing returns the
  empty dataset.
\<close>

theorem parseCSV_schema_error:
  "(linesOf text = [] \<longrightarrow> parseCSV text = Inr [])
   \<and> (linesOf text = l0 # ls
        \<and> (''latentx1'' \<notin> set (headerOf text l0) \<or> ''latentx2'' \<notin> set (headerOf text l0))
      \<longrightarrow> parseCSV text = Inl SchemaError)"
  by (auto simp: parseCSV_def Let_def indexOf_None_iff[symmetric] split: option.splits)

theorem parseCSV_schema_error_witness:
  "parseCSV [CHR 0x0D, CHR 0x0A, CHR 0x0A] = Inr []
   \<and> parseCSV (''id,x,LatentX2'' @ [CHR 0x0A] @ ''1,2,3'') = Inl SchemaError"
  using parseCSV_schema_error [of "[CHR 0x0D, CHR 0x0A, CHR 0x0A]"]
    parseCSV_schema_error [of "''id,x,LatentX2'' @ [CHR 0x0A] @ ''1,2,3''" "''id,x,LatentX2''"
      "[''1,2,3'']"]
  by (simp add: linesOf_def headerOf_def delimOf_def trim_def isWhite_def toLowerCase_def
      lowerChar_def)

text \<open>The two alternatives of the pattern, read on the text.\<close>

lemma lowerChar_t: "lowerChar c = CHR ''t'' \<longleftrightarrow> c \<in> set ''tT''"
  by (auto simp: lowerChar_def split: if_splits)

lemma lowerChar_r: "lowerChar c = CHR ''r'' \<longleftrightarrow> c \<in> set ''rR''"
  by (auto simp: lowerChar_def split: if_splits)

lemma lowerChar_u: "lowerChar c = CHR ''u'' \<longleftrightarrow> c \<in> set ''uU''"
  by (auto simp: lowerChar_def split: if_splits)

lemma lowerChar_e: "lowerChar c = CHR ''e'' \<longleftrightarrow> c \<in> set ''eE''"
  by (auto simp: lowerChar_def split: if_splits)

lemma begins_true_iff:
  "(length s \<ge> 4 \<and> s ! 0 \<in> set ''tT'' \<and> s ! 1 \<in> set ''rR'' \<and> s ! 2 \<in> set ''uU''
      \<and> s ! 3 \<in> set ''eE'')
     \<longleftrightarrow> map lowerChar (take 4 s) = ''true''"
proof (cases s)
  case Nil
  then show ?thesis by simp
next
  case c1: (Cons a s1)
  show ?thesis
  proof (cases s1)
    case Nil
    with c1 show ?thesis by simp
  next
    case c2: (Cons b s2)
    show ?thesis
    proof (cases s2)
      case Nil
      with c1 c2 show ?thesis by simp
    next
      case c3: (Cons c s3)
      show ?thesis
      proof (cases s3)
        case Nil
        with c1 c2 c3 show ?thesis by simp
      next
        case (Cons d s4)
        with c1 c2 c3 show ?thesis
          using lowerChar_t[of a] lowerChar_r[of b] lowerChar_u[of c] lowerChar_e[of d]
          by (simp add: eval_nat_numeral)
      qed
    qed
  qed
qed

lemma ends_with_iff: "(s \<noteq> [] \<and> last s = c) \<longleftrightarrow> (\<exists>p. s = p @ [c])"
  by (metis append_butlast_last_id last_snoc snoc_eq_iff_butlast)

lemma feasibleTest_iff:
  "feasibleTest s \<longleftrightarrow> (map lowerChar (take 4 s) = ''true'' \<or> (\<exists>p. s = p @ ''1''))"
  unfolding feasibleTest_def begins_true_iff ends_with_iff by simp

text \<open>
  C6. The claim: the flag is true exactly when the trimmed cell begins with \<open>true\<close> or is
  the text \<open>1\<close>, and a cell that is \<open>1\<close> followed by further characters is not feasible. In
  the pattern \<open>^true|1$\<close> the second alternative is \<open>1$\<close>, which holds of every text that
  ends with \<open>1\<close>: the cell \<open>11\<close> is feasible.
\<close>

theorem feasible_counterexample:
  "parseCSV (''latentx1,latentx2,feasible'' @ [CHR 0x0A] @ ''1,2,11'')
     = Inr [\<lparr>id_str = Some ''0'', latentx1 = Fin 1, latentx2 = Fin 2,
             design_var_1 = Some [], design_var_2 = Some [], feasible = True\<rparr>]"
  by (simp add: parse_eval)

text \<open>
  C6, amended. The flag of a parsed row is true exactly when the trimmed cell of the feasible
  column (the empty text when the column or the cell is absent) begins with \<open>true\<close> in any
  case or ends with the character \<open>1\<close>.
\<close>

theorem feasible_flag:
  "rowOf h i line = Some r \<Longrightarrow>
     feasible r \<longleftrightarrow>
       (map lowerChar (take 4 (trim (rawFeasOf (ifeas h) (map trim (splitOn (delim h) line)))))
          = ''true''
        \<or> (\<exists>p. trim (rawFeasOf (ifeas h) (map trim (splitOn (delim h) line))) = p @ ''1''))"
  by (auto simp: rowOf_def Let_def feasibleTest_iff split: if_splits)

theorem feasible_flag_witness:
  "rowOf \<lparr>delim = CHR '','', ix = 0, iy = 1, iid = None, idv1 = None, idv2 = None, ifeas = Some 2\<rparr>
       1 ''1,2, x1 ''
     = Some \<lparr>id_str = Some ''0'', latentx1 = Fin 1, latentx2 = Fin 2,
             design_var_1 = Some [], design_var_2 = Some [], feasible = True\<rparr>
   \<and> trim (rawFeasOf (Some 2) (map trim (splitOn (CHR '','') ''1,2, x1 ''))) = ''x'' @ ''1''"
  using feasible_flag [of "\<lparr>delim = CHR '','', ix = 0, iy = 1, iid = None, idv1 = None,
        idv2 = None, ifeas = Some 2\<rparr>" 1 "''1,2, x1 ''"
      "\<lparr>id_str = Some ''0'', latentx1 = Fin 1, latentx2 = Fin 2,
        design_var_1 = Some [], design_var_2 = Some [], feasible = True\<rparr>"]
  by (simp add: parse_eval)




section \<open>The viewport fit: claims\<close>

lemma jmax_Fin: "jmax (Fin a) (Fin b) = Fin (max a b)"
  by (auto simp: jmax_def)

lemma jmin_Fin: "jmin (Fin a) (Fin b) = Fin (min a b)"
  by (auto simp: jmin_def)

lemma jmin_PInf: "jmin PInf (Fin a) = Fin a"
  by (simp add: jmin_def)

lemma jmax_NInf: "jmax NInf (Fin a) = Fin a"
  by (simp add: jmax_def)

text \<open>
  C8. For a dataset of one record with finite coordinates, and the default margin or any
  finite margin above \<open>-1\<close>, the fit returns the box whose four coordinates are the record's
  point, and a finite zoom: the span is at least \<open>1e-9\<close> before the margin, and the scale at
  least \<open>1e-6\<close> before the logarithm. The fit has no failing branch.
\<close>

theorem zoomToFit_single:
  assumes "latentx1 r = Fin a" and "latentx2 r = Fin b"
    and "margin = None \<or> (\<exists>m. margin = Some (Fin m) \<and> - 1 < m)"
  shows "bounds (zoomToFit innerWidth innerHeight [r] margin) = Some (Fin a, Fin b, Fin a, Fin b)
         \<and> isFinite (zoom (zoomToFit innerWidth innerHeight [r] margin))"
proof -
  define v where "v = min (max 1 (real_of_int innerWidth)) (max 1 (real_of_int innerHeight))"
  have v: "0 < v" unfolding v_def by (auto simp: min_def max_def)
  have "\<exists>m. (case margin of None \<Rightarrow> Fin (1 / 10) | Some u \<Rightarrow> u) = Fin m \<and> 0 < 1 + m"
  proof (cases margin)
    case None
    then have "(case margin of None \<Rightarrow> Fin (1 / 10) | Some u \<Rightarrow> u) = Fin (1 / 10)
                 \<and> (0::real) < 1 + 1 / 10"
      by simp
    then show ?thesis by blast
  next
    case (Some u)
    with assms(3) show ?thesis by auto
  qed
  then obtain m where m: "(case margin of None \<Rightarrow> Fin (1 / 10) | Some u \<Rightarrow> u) = Fin m"
    and mpos: "0 < 1 + m"
    by blast
  have z: "zoom (zoomToFit innerWidth innerHeight [r] margin)
            = jlog2 (Fin (max (v / (1 / 10 ^ 9 * (1 + m))) (1 / 10 ^ 6)))"
    using assms(1,2) mpos
    by (simp add: zoomToFit_def Let_def m mathMin_def mathMax_def jmin_PInf jmax_NInf jsub_def
        jmax_Fin jmin_Fin v_def)
  have "0 < max (v / (1 / 10 ^ 9 * (1 + m))) (1 / 10 ^ 6)"
    by (auto simp: max_def)
  then have "isFinite (jlog2 (Fin (max (v / (1 / 10 ^ 9 * (1 + m))) (1 / 10 ^ 6))))"
    by (auto simp: max_def)
  moreover have "bounds (zoomToFit innerWidth innerHeight [r] margin)
                   = Some (Fin a, Fin b, Fin a, Fin b)"
    using assms(1,2)
    by (simp add: zoomToFit_def Let_def mathMin_def mathMax_def jmin_PInf jmax_NInf)
  ultimately show ?thesis using z by simp
qed

theorem zoomToFit_single_witness:
  "bounds (zoomToFit 800 600 [\<lparr>id_str = Some ''1'', latentx1 = Fin (1 / 2), latentx2 = Fin 2,
        design_var_1 = Some [], design_var_2 = Some [], feasible = True\<rparr>] None)
     = Some (Fin (1 / 2), Fin 2, Fin (1 / 2), Fin 2)
   \<and> isFinite (zoom (zoomToFit 800 600 [\<lparr>id_str = Some ''1'', latentx1 = Fin (1 / 2),
        latentx2 = Fin 2, design_var_1 = Some [], design_var_2 = Some [], feasible = True\<rparr>] None))"
  using zoomToFit_single [of "\<lparr>id_str = Some ''1'', latentx1 = Fin (1 / 2), latentx2 = Fin 2,
        design_var_1 = Some [], design_var_2 = Some [], feasible = True\<rparr>" "1 / 2" 2 None 800 600]
  by simp

section \<open>The selection: claims\<close>

text \<open>Two association lists with the same distinct keys in the same order and the same lookup are equal.\<close>

lemma alist_eqI:
  "distinct (map fst al) \<Longrightarrow> map fst al = map fst bl \<Longrightarrow> map_of al = map_of bl \<Longrightarrow> al = bl"
proof (induction al arbitrary: bl)
  case Nil
  then show ?case by simp
next
  case (Cons p al)
  obtain k v where p: "p = (k, v)" by (cases p)
  from Cons.prems(2) p obtain w bl' where bl: "bl = (k, w) # bl'" and keys: "map fst al = map fst bl'"
    by (cases bl) auto
  from fun_cong[OF Cons.prems(3), of k] p bl have vw: "v = w" by simp
  from Cons.prems(1) p have nk: "k \<notin> fst ` set al" and d: "distinct (map fst al)" by auto
  have "map_of al = map_of bl'"
  proof
    fix x
    show "map_of al x = map_of bl' x"
    proof (cases "x = k")
      case True
      with nk keys show ?thesis
        by (metis list.set_map map_of_eq_None_iff)
    next
      case False
      from fun_cong[OF Cons.prems(3), of x] p bl False show ?thesis by simp
    qed
  qed
  from Cons.IH[OF d keys this] p bl vw show ?case by simp
qed

lemma update_keys_set: "fst ` set (AList.update k v al) = insert k (fst ` set al)"
proof -
  have "dom (map_of (AList.update k v al)) = insert k (dom (map_of al))"
    by (simp add: update_conv')
  then show ?thesis by (simp add: dom_map_of_conv_image_fst)
qed

lemma selectRect_Nil: "selectRect r [] sel = sel"
  by (simp add: selectRect_def)

lemma selectRect_Cons:
  "selectRect r (d # data) sel
     = (if inRect r d then selectRect r data (AList.update (id_str d) d sel) else selectRect r data sel)"
  by (simp add: selectRect_def)

lemma selectRect_distinct: "distinct (map fst sel) \<Longrightarrow> distinct (map fst (selectRect r data sel))"
  by (induction data arbitrary: sel) (simp_all add: selectRect_Nil selectRect_Cons distinct_update)

lemma selectRect_keys_set:
  "fst ` set (selectRect r data sel) = fst ` set sel \<union> id_str ` {d \<in> set data. inRect r d}"
  by (induction data arbitrary: sel) (auto simp: selectRect_Nil selectRect_Cons update_keys_set)

lemma selectRect_keys_same:
  "id_str ` {d \<in> set data. inRect r d} \<subseteq> fst ` set sel
     \<Longrightarrow> map fst (selectRect r data sel) = map fst sel"
proof (induction data arbitrary: sel)
  case Nil
  then show ?case by (simp add: selectRect_Nil)
next
  case (Cons d data)
  show ?case
  proof (cases "inRect r d")
    case False
    with Cons.prems have "id_str ` {d \<in> set data. inRect r d} \<subseteq> fst ` set sel" by auto
    from Cons.IH[OF this] False show ?thesis by (simp add: selectRect_Cons)
  next
    case True
    with Cons.prems have "id_str d \<in> fst ` set sel" by auto
    then have k: "map fst (AList.update (id_str d) d sel) = map fst sel"
      by (simp add: update_keys)
    have "fst ` set (AList.update (id_str d) d sel) = fst ` set sel"
      using \<open>id_str d \<in> fst ` set sel\<close> by (auto simp: update_keys_set)
    with Cons.prems have "id_str ` {d \<in> set data. inRect r d} \<subseteq> fst ` set (AList.update (id_str d) d sel)"
      by auto
    from Cons.IH[OF this] k True show ?thesis by (simp add: selectRect_Cons)
  qed
qed

lemma selectRect_map_of:
  "map_of (selectRect r data sel)
     = map_of sel ++ map_of (rev (map (\<lambda>d. (id_str d, d)) (filter (inRect r) data)))"
proof (induction data arbitrary: sel)
  case Nil
  then show ?case by (simp add: selectRect_Nil)
next
  case (Cons d data)
  show ?case
  proof (cases "inRect r d")
    case False
    then show ?thesis by (simp add: selectRect_Cons Cons.IH)
  next
    case True
    have "map_of (AList.update (id_str d) d sel) ++ map_of (rev (map (\<lambda>d. (id_str d, d)) (filter (inRect r) data)))
          = map_of sel ++ map_of (rev (map (\<lambda>d. (id_str d, d)) (filter (inRect r) data)) @ [(id_str d, d)])"
      by (rule ext) (simp add: update_conv' map_add_def split: option.splits)
    with True show ?thesis by (simp add: selectRect_Cons Cons.IH)
  qed
qed

lemma selectRect_idem:
  assumes "distinct (map fst sel)"
  shows "selectRect r data (selectRect r data sel) = selectRect r data sel"
proof (rule alist_eqI)
  show "distinct (map fst (selectRect r data (selectRect r data sel)))"
    by (intro selectRect_distinct assms)
  show "map fst (selectRect r data (selectRect r data sel)) = map fst (selectRect r data sel)"
    by (rule selectRect_keys_same) (simp add: selectRect_keys_set)
  show "map_of (selectRect r data (selectRect r data sel)) = map_of (selectRect r data sel)"
    by (rule ext) (simp add: selectRect_map_of map_add_def split: option.splits)
qed

lemma selectRect_other:
  "k \<notin> id_str ` {d \<in> set data. inRect r d} \<Longrightarrow> map_of (selectRect r data sel) k = map_of sel k"
proof -
  assume "k \<notin> id_str ` {d \<in> set data. inRect r d}"
  then have "k \<notin> fst ` set (rev (map (\<lambda>d. (id_str d, d)) (filter (inRect r) data)))"
    by (auto simp: image_iff)
  then have "map_of (rev (map (\<lambda>d. (id_str d, d)) (filter (inRect r) data))) k = None"
    by (subst map_of_eq_None_iff)
  then show ?thesis by (simp add: selectRect_map_of map_add_def)
qed

lemma selectRect_inside:
  assumes "distinct (map id_str data)" and "d \<in> set data" and "inRect r d"
  shows "map_of (selectRect r data sel) (id_str d) = Some d"
proof -
  let ?kvs = "rev (map (\<lambda>d. (id_str d, d)) (filter (inRect r) data))"
  have "map fst ?kvs = rev (map id_str (filter (inRect r) data))"
    by (simp add: rev_map comp_def)
  with assms(1) have "distinct (map fst ?kvs)"
    by (simp add: distinct_map_filter)
  moreover have "(id_str d, d) \<in> set ?kvs" using assms(2,3) by auto
  ultimately have "map_of ?kvs (id_str d) = Some d" by (rule map_of_is_SomeI)
  then show ?thesis by (simp add: selectRect_map_of map_add_def)
qed

text \<open>
  C2. A finished gesture puts every record of the dataset that lies in the rectangle into the
  selection and removes nothing: the keys of the selection stay, and an entry whose key is not
  the id of a record in the rectangle keeps its value. Selecting the same rectangle again
  leaves the selection as it is. With unique ids in the dataset, after two rectangles every
  record in either of them is in the selection.
\<close>

theorem selectRect_union:
  assumes "distinct (map fst sel)"
  shows "selectRect r data (selectRect r data sel) = selectRect r data sel
    \<and> fst ` set sel \<subseteq> fst ` set (selectRect r data sel)
    \<and> (\<forall>k. k \<notin> id_str ` {d \<in> set data. inRect r d} \<longrightarrow> map_of (selectRect r data sel) k = map_of sel k)
    \<and> (distinct (map id_str data) \<longrightarrow>
         (\<forall>d \<in> set data. inRect r1 d \<or> inRect r2 d \<longrightarrow>
            map_of (selectRect r2 data (selectRect r1 data sel)) (id_str d) = Some d))"
proof (intro conjI allI impI ballI)
  show "selectRect r data (selectRect r data sel) = selectRect r data sel"
    by (rule selectRect_idem[OF assms])
  show "fst ` set sel \<subseteq> fst ` set (selectRect r data sel)"
    by (simp add: selectRect_keys_set)
next
  fix k assume "k \<notin> id_str ` {d \<in> set data. inRect r d}"
  then show "map_of (selectRect r data sel) k = map_of sel k" by (rule selectRect_other)
next
  fix d assume dist: "distinct (map id_str data)" and d: "d \<in> set data" and "inRect r1 d \<or> inRect r2 d"
  show "map_of (selectRect r2 data (selectRect r1 data sel)) (id_str d) = Some d"
  proof (cases "inRect r2 d")
    case True
    with dist d show ?thesis by (rule selectRect_inside)
  next
    case False
    with \<open>inRect r1 d \<or> inRect r2 d\<close> have r1: "inRect r1 d" by simp
    have "id_str d \<notin> id_str ` {d \<in> set data. inRect r2 d}"
    proof
      assume "id_str d \<in> id_str ` {d \<in> set data. inRect r2 d}"
      then obtain e where e: "e \<in> set data" "inRect r2 e" "id_str e = id_str d" by auto
      from dist e(1) d e(3) have "e = d" by (meson distinct_map inj_onD)
      with e(2) False show False by simp
    qed
    then have "map_of (selectRect r2 data (selectRect r1 data sel)) (id_str d)
                 = map_of (selectRect r1 data sel) (id_str d)"
      by (rule selectRect_other)
    also have "\<dots> = Some d" using dist d r1 by (rule selectRect_inside)
    finally show ?thesis .
  qed
qed

theorem selectRect_union_witness:
  "selectRect (Fin 0, Fin 0, Fin 2, Fin 2)
       [\<lparr>id_str = Some ''a'', latentx1 = Fin 1, latentx2 = Fin 1, design_var_1 = Some [],
          design_var_2 = Some [], feasible = True\<rparr>,
        \<lparr>id_str = Some ''b'', latentx1 = Fin 5, latentx2 = Fin 5, design_var_1 = Some [],
          design_var_2 = Some [], feasible = False\<rparr>]
       (selectRect (Fin 0, Fin 0, Fin 2, Fin 2)
          [\<lparr>id_str = Some ''a'', latentx1 = Fin 1, latentx2 = Fin 1, design_var_1 = Some [],
             design_var_2 = Some [], feasible = True\<rparr>,
           \<lparr>id_str = Some ''b'', latentx1 = Fin 5, latentx2 = Fin 5, design_var_1 = Some [],
             design_var_2 = Some [], feasible = False\<rparr>] [])
     = [(Some ''a'', \<lparr>id_str = Some ''a'', latentx1 = Fin 1, latentx2 = Fin 1,
                       design_var_1 = Some [], design_var_2 = Some [], feasible = True\<rparr>)]
   \<and> map_of (selectRect (Fin 4, Fin 4, Fin 6, Fin 6)
       [\<lparr>id_str = Some ''a'', latentx1 = Fin 1, latentx2 = Fin 1, design_var_1 = Some [],
          design_var_2 = Some [], feasible = True\<rparr>,
        \<lparr>id_str = Some ''b'', latentx1 = Fin 5, latentx2 = Fin 5, design_var_1 = Some [],
          design_var_2 = Some [], feasible = False\<rparr>]
       (selectRect (Fin 0, Fin 0, Fin 2, Fin 2)
          [\<lparr>id_str = Some ''a'', latentx1 = Fin 1, latentx2 = Fin 1, design_var_1 = Some [],
             design_var_2 = Some [], feasible = True\<rparr>,
           \<lparr>id_str = Some ''b'', latentx1 = Fin 5, latentx2 = Fin 5, design_var_1 = Some [],
             design_var_2 = Some [], feasible = False\<rparr>] [])) (Some ''a'')
     = Some \<lparr>id_str = Some ''a'', latentx1 = Fin 1, latentx2 = Fin 1,
              design_var_1 = Some [], design_var_2 = Some [], feasible = True\<rparr>"
  using selectRect_union [of "[]" "(Fin 0, Fin 0, Fin 2, Fin 2)"
      "[\<lparr>id_str = Some ''a'', latentx1 = Fin 1, latentx2 = Fin 1, design_var_1 = Some [],
          design_var_2 = Some [], feasible = True\<rparr>,
        \<lparr>id_str = Some ''b'', latentx1 = Fin 5, latentx2 = Fin 5, design_var_1 = Some [],
          design_var_2 = Some [], feasible = False\<rparr>]"
      "(Fin 0, Fin 0, Fin 2, Fin 2)" "(Fin 4, Fin 4, Fin 6, Fin 6)"]
  by (simp add: selectRect_def inRect_def)

section \<open>The export: claims\<close>








lemma digitChar_digit: "isDigit (digitChar n)"
proof -
  have "n mod 10 < length ''0123456789''" by simp
  then show ?thesis unfolding digitChar_def isDigit_def by (rule nth_mem)
qed

lemma natToString_digits: "c \<in> set (natToString n) \<Longrightarrow> isDigit c"
proof (induction n rule: natToString.induct)
  case (1 n)
  show ?case
  proof (cases "n < 10")
    case True
    with 1(2) have "c = digitChar n" by (subst (asm) natToString.simps) simp
    then show ?thesis by (simp add: digitChar_digit)
  next
    case False
    with 1(2) have "c \<in> set (natToString (n div 10)) \<or> c = digitChar (n mod 10)"
      by (subst (asm) natToString.simps) auto
    with 1(1)[OF False] show ?thesis by (auto simp: digitChar_digit)
  qed
qed

lemma natToString_nonempty: "natToString n \<noteq> []"
  by (subst natToString.simps) simp

lemma fracDigits_digits: "c \<in> set (fracDigits n f) \<Longrightarrow> isDigit c"
proof (induction n f rule: fracDigits.induct)
  case (1 n f)
  show ?case
  proof (cases "n = 0 \<or> f = 0")
    case True
    with 1(2) show ?thesis by (subst (asm) fracDigits.simps) simp
  next
    case False
    with 1(2) have "c = digitChar (nat \<lfloor>f * 10\<rfloor>)
         \<or> c \<in> set (fracDigits (n - 1) (f * 10 - of_int \<lfloor>f * 10\<rfloor>))"
      by (subst (asm) fracDigits.simps) auto
    with 1(1)[OF False] show ?thesis by (auto simp: digitChar_digit)
  qed
qed




















text \<open>
  In the model a finite number with at most 17 decimal places is read back from its printed
  form, so a record with such coordinates and clean texts is exportable.
\<close>

lemma digitVal_digitChar: "k < 10 \<Longrightarrow> digitVal (digitChar k) = k"
proof -
  assume "k < 10"
  then have "k = 0 \<or> k = 1 \<or> k = 2 \<or> k = 3 \<or> k = 4 \<or> k = 5 \<or> k = 6 \<or> k = 7 \<or> k = 8 \<or> k = 9"
    by arith
  then show ?thesis
    by (elim disjE) (simp_all add: digitChar_def digitVal_def)
qed

lemma natOfDigits_snoc: "natOfDigits (ds @ [c]) = 10 * natOfDigits ds + digitVal c"
  by (simp add: natOfDigits_def)

lemma natOfDigits_natToString: "natOfDigits (natToString n) = n"
proof (induction n rule: natToString.induct)
  case (1 n)
  show ?case
  proof (cases "n < 10")
    case True
    then show ?thesis
      by (subst natToString.simps) (simp add: natOfDigits_def digitVal_digitChar)
  next
    case False
    with 1 show ?thesis
      by (subst natToString.simps) (simp add: natOfDigits_snoc digitVal_digitChar)
  qed
qed

lemma digits_only:
  "\<forall>c \<in> set ds. isDigit c \<Longrightarrow> takeWhile isDigit ds = ds \<and> dropWhile isDigit ds = []"
  by simp

lemma isDigit_ok:
  "isDigit c \<Longrightarrow> \<not> isWhite c \<and> c \<noteq> CHR ''-'' \<and> c \<noteq> CHR ''+'' \<and> c \<noteq> CHR ''I''"
  by (auto simp: isDigit_def isWhite_def)

lemma parseMantissa_digits:
  assumes "ds \<noteq> []" and "\<forall>c \<in> set ds. isDigit c"
  shows "parseMantissa neg ds = Fin ((if neg then - 1 else 1) * real (natOfDigits ds))"
proof -
  from assms obtain c r where ds: "ds = c # r" and c: "isDigit c" by (cases ds) auto
  have inf: "take 8 ds \<noteq> ''Infinity''" using ds isDigit_ok[OF c] by auto
  from digits_only[OF assms(2)] have tw: "takeWhile isDigit ds = ds"
    and dw: "dropWhile isDigit ds = []" by blast+
  show ?thesis
    using assms(1) by (simp add: parseMantissa_def Let_def inf tw dw parseExp_def pow10_def)
qed

lemma parseFloat_digits:
  assumes "ds \<noteq> []" and "\<forall>c \<in> set ds. isDigit c"
  shows "parseFloat ds = Fin (real (natOfDigits ds))"
    and "parseFloat (CHR ''-'' # ds) = Fin (- real (natOfDigits ds))"
proof -
  from assms obtain c r where ds: "ds = c # r" and c: "isDigit c" by (cases ds) auto
  from isDigit_ok[OF c] have "parseFloat ds = parseMantissa False ds"
    by (simp add: parseFloat_def ds)
  then show "parseFloat ds = Fin (real (natOfDigits ds))"
    by (simp add: parseMantissa_digits[OF assms])
  have "parseFloat (CHR ''-'' # ds) = parseMantissa True ds"
    by (simp add: parseFloat_def isWhite_def)
  then show "parseFloat (CHR ''-'' # ds) = Fin (- real (natOfDigits ds))"
    by (simp add: parseMantissa_digits[OF assms])
qed

lemma parseFloat_numToString_int:
  "parseFloat (numToString (Fin (of_int n))) = Fin (of_int n)"
proof -
  define m where "m = nat \<bar>n\<bar>"
  have d: "natToString m \<noteq> []" "\<forall>c \<in> set (natToString m). isDigit c"
    using natToString_nonempty natToString_digits by blast+
  have fl: "nat \<lfloor>\<bar>real_of_int n\<bar>\<rfloor> = m"
    unfolding m_def by (metis floor_of_int of_int_abs)
  have int: "\<bar>real_of_int n\<bar> = of_int \<lfloor>\<bar>real_of_int n\<bar>\<rfloor>"
    by (metis floor_of_int of_int_abs)
  show ?thesis
  proof (cases "n < 0")
    case True
    then have "numToString (Fin (of_int n)) = CHR ''-'' # natToString m"
      unfolding numToString_def using fl int by simp
    moreover from True have "- real m = of_int n" by (simp add: m_def)
    ultimately show ?thesis
      by (simp add: parseFloat_digits(2)[OF d] natOfDigits_natToString)
  next
    case False
    then have "numToString (Fin (of_int n)) = natToString m"
      unfolding numToString_def using fl int by simp
    moreover from False have "real m = of_int n" by (simp add: m_def)
    ultimately show ?thesis
      by (simp add: parseFloat_digits(1)[OF d] natOfDigits_natToString)
  qed
qed

lemma natOfDigits_Cons: "natOfDigits (c # ds) = digitVal c * 10 ^ length ds + natOfDigits ds"
proof (induction ds rule: rev_induct)
  case Nil
  then show ?case by (simp add: natOfDigits_def)
next
  case (snoc x xs)
  have "natOfDigits (c # xs @ [x]) = 10 * natOfDigits (c # xs) + digitVal x"
    using natOfDigits_snoc[of "c # xs" x] by simp
  with snoc show ?case by (simp add: natOfDigits_snoc algebra_simps)
qed

lemma natOfDigits_append:
  "natOfDigits (xs @ ys) = natOfDigits xs * 10 ^ length ys + natOfDigits ys"
proof (induction ys rule: rev_induct)
  case Nil
  then show ?case by (simp add: natOfDigits_def)
next
  case (snoc y ys)
  have "natOfDigits (xs @ ys @ [y]) = 10 * natOfDigits (xs @ ys) + digitVal y"
    using natOfDigits_snoc[of "xs @ ys" y] by simp
  with snoc show ?case by (simp add: natOfDigits_snoc algebra_simps)
qed

lemma fracDigits_value:
  assumes "0 \<le> f" and "f < 1" and "\<exists>k::int. f * 10 ^ n = of_int k"
  shows "real (natOfDigits (fracDigits n f)) / 10 ^ length (fracDigits n f) = f"
  using assms
proof (induction n f rule: fracDigits.induct)
  case (1 n f)
  show ?case
  proof (cases "n = 0 \<or> f = 0")
    case True
    have "f = 0"
    proof (cases "f = 0")
      case False
      with True have n: "n = 0" by simp
      with "1.prems"(3) obtain k :: int where "f = of_int k" by auto
      with "1.prems"(1,2) have "0 \<le> k" "k < 1" by simp_all
      then have "k = 0" by simp
      with \<open>f = of_int k\<close> show ?thesis by simp
    qed simp
    then show ?thesis by (subst (1 2) fracDigits.simps) (simp add: natOfDigits_def)
  next
    case False
    define d where "d = nat \<lfloor>f * 10\<rfloor>"
    define f' where "f' = f * 10 - of_int \<lfloor>f * 10\<rfloor>"
    have d10: "d < 10" using "1.prems"(1,2) unfolding d_def by (simp add: floor_less_iff nat_less_iff)
    have dr: "real d = of_int \<lfloor>f * 10\<rfloor>" using "1.prems"(1) unfolding d_def by simp
    have f0: "0 \<le> f'" and f1: "f' < 1" unfolding f'_def by linarith+
    from False have n: "n = Suc (n - 1)" by simp
    from "1.prems"(3) obtain k :: int where k: "f * 10 ^ n = of_int k" by blast
    have "f' * 10 ^ (n - 1) = f * 10 ^ n - of_int \<lfloor>f * 10\<rfloor> * 10 ^ (n - 1)"
      unfolding f'_def by (subst (2) n) (simp add: algebra_simps)
    also have "\<dots> = of_int (k - \<lfloor>f * 10\<rfloor> * 10 ^ (n - 1))" using k by simp
    finally have "\<exists>k::int. f' * 10 ^ (n - 1) = of_int k" by blast
    from "1.IH"[OF False f0[unfolded f'_def] f1[unfolded f'_def] this[unfolded f'_def]]
    have ih: "real (natOfDigits (fracDigits (n - 1) f')) / 10 ^ length (fracDigits (n - 1) f') = f'"
      by (simp add: f'_def)
    have fd: "fracDigits n f = digitChar d # fracDigits (n - 1) f'"
      using False by (subst fracDigits.simps) (simp add: d_def f'_def)
    have "real (natOfDigits (fracDigits n f)) / 10 ^ length (fracDigits n f)
            = (real d + real (natOfDigits (fracDigits (n - 1) f')) / 10 ^ length (fracDigits (n - 1) f')) / 10"
      by (simp add: fd natOfDigits_Cons digitVal_digitChar[OF d10] field_simps)
    also have "\<dots> = (real d + f') / 10" by (simp only: ih)
    also have "\<dots> = f" by (simp add: dr f'_def)
    finally show ?thesis .
  qed
qed

lemma parseMantissa_decimal:
  assumes "ds1 \<noteq> []" and "\<forall>c \<in> set ds1. isDigit c" and "\<forall>c \<in> set ds2. isDigit c"
  shows "parseMantissa neg (ds1 @ CHR ''.'' # ds2)
           = Fin ((if neg then - 1 else 1) * (real (natOfDigits (ds1 @ ds2)) / 10 ^ length ds2))"
proof -
  from assms obtain c r where ds: "ds1 = c # r" and c: "isDigit c" by (cases ds1) auto
  have inf: "take 8 (ds1 @ CHR ''.'' # ds2) \<noteq> ''Infinity''" using ds isDigit_ok[OF c] by auto
  have nd: "\<not> isDigit (CHR ''.'')" by (simp add: isDigit_def)
  have tw: "takeWhile isDigit (ds1 @ CHR ''.'' # ds2) = ds1"
    using assms(2) nd by (simp add: takeWhile_append2)
  have dw: "dropWhile isDigit (ds1 @ CHR ''.'' # ds2) = CHR ''.'' # ds2"
    using assms(2) nd by (simp add: dropWhile_append2)
  from digits_only[OF assms(3)] have tw2: "takeWhile isDigit ds2 = ds2"
    and dw2: "dropWhile isDigit ds2 = []" by blast+
  show ?thesis
    unfolding parseMantissa_def
    by (subst if_not_P[OF inf]) (simp add: Let_def tw dw tw2 dw2 parseExp_def pow10_def assms(1))
qed

lemma parseFloat_decimal:
  assumes "ds1 \<noteq> []" and "\<forall>c \<in> set ds1. isDigit c" and "\<forall>c \<in> set ds2. isDigit c"
  shows "parseFloat (ds1 @ CHR ''.'' # ds2) = Fin (real (natOfDigits (ds1 @ ds2)) / 10 ^ length ds2)"
    and "parseFloat (CHR ''-'' # ds1 @ CHR ''.'' # ds2)
           = Fin (- (real (natOfDigits (ds1 @ ds2)) / 10 ^ length ds2))"
proof -
  from assms obtain c r where ds: "ds1 = c # r" and c: "isDigit c" by (cases ds1) auto
  from isDigit_ok[OF c]
  have "parseFloat (ds1 @ CHR ''.'' # ds2) = parseMantissa False (ds1 @ CHR ''.'' # ds2)"
    by (simp add: parseFloat_def ds)
  then show "parseFloat (ds1 @ CHR ''.'' # ds2) = Fin (real (natOfDigits (ds1 @ ds2)) / 10 ^ length ds2)"
    by (simp add: parseMantissa_decimal[OF assms])
  have "parseFloat (CHR ''-'' # ds1 @ CHR ''.'' # ds2) = parseMantissa True (ds1 @ CHR ''.'' # ds2)"
    by (simp add: parseFloat_def isWhite_def)
  then show "parseFloat (CHR ''-'' # ds1 @ CHR ''.'' # ds2)
           = Fin (- (real (natOfDigits (ds1 @ ds2)) / 10 ^ length ds2))"
    by (simp add: parseMantissa_decimal[OF assms])
qed

lemma parseFloat_numToString_decimal:
  assumes "\<exists>k::int. a * 10 ^ 17 = of_int k"
  shows "parseFloat (numToString (Fin a)) = Fin a"
proof (cases "\<bar>a\<bar> = of_int \<lfloor>\<bar>a\<bar>\<rfloor>")
  case True
  then have "\<exists>n::int. a = of_int n"
    by (metis abs_if of_int_minus minus_equation_iff)
  then show ?thesis using parseFloat_numToString_int by auto
next
  case False
  define m where "m = nat \<lfloor>\<bar>a\<bar>\<rfloor>"
  define f where "f = \<bar>a\<bar> - of_int \<lfloor>\<bar>a\<bar>\<rfloor>"
  define ds1 where "ds1 = natToString m"
  define ds2 where "ds2 = fracDigits 17 f"
  have d1: "ds1 \<noteq> []" "\<forall>c \<in> set ds1. isDigit c"
    unfolding ds1_def using natToString_nonempty natToString_digits by blast+
  have d2: "\<forall>c \<in> set ds2. isDigit c"
    unfolding ds2_def using fracDigits_digits by blast
  have f0: "0 \<le> f" and f1: "f < 1" unfolding f_def by linarith+
  from assms obtain k :: int where k: "a * 10 ^ 17 = of_int k" by blast
  have "\<bar>a\<bar> * 10 ^ 17 = of_int \<bar>k\<bar>"
    using k by (metis abs_mult abs_numeral abs_power2 of_int_abs power_abs)
  then have "f * 10 ^ 17 = of_int (\<bar>k\<bar> - \<lfloor>\<bar>a\<bar>\<rfloor> * 10 ^ 17)"
    unfolding f_def by (simp add: algebra_simps)
  then have "\<exists>k::int. f * 10 ^ 17 = of_int k" by blast
  from fracDigits_value[OF f0 f1 this]
  have fv: "real (natOfDigits ds2) / 10 ^ length ds2 = f" by (simp add: ds2_def)
  have mr: "real m = of_int \<lfloor>\<bar>a\<bar>\<rfloor>" unfolding m_def by simp
  have val: "real (natOfDigits (ds1 @ ds2)) / 10 ^ length ds2 = \<bar>a\<bar>"
  proof -
    have "real (natOfDigits (ds1 @ ds2)) / 10 ^ length ds2
            = real m + real (natOfDigits ds2) / 10 ^ length ds2"
      by (simp add: natOfDigits_append ds1_def natOfDigits_natToString field_simps)
    also have "\<dots> = real m + f" by (simp only: fv)
    also have "\<dots> = \<bar>a\<bar>" by (simp add: mr f_def)
    finally show ?thesis .
  qed
  show ?thesis
  proof (cases "a < 0")
    case True
    then have "numToString (Fin a) = CHR ''-'' # ds1 @ CHR ''.'' # ds2"
      using False by (simp add: numToString_def ds1_def ds2_def m_def f_def)
    then show ?thesis using True
      by (simp add: parseFloat_decimal(2)[OF d1 d2] val)
  next
    case nn: False
    then have "numToString (Fin a) = ds1 @ CHR ''.'' # ds2"
      using False by (simp add: numToString_def ds1_def ds2_def m_def f_def)
    then show ?thesis using nn
      by (simp add: parseFloat_decimal(1)[OF d1 d2] val)
  qed
qed

lemma exportable_decimal:
  assumes "id_str d = Some i" and "design_var_1 d = Some v1" and "design_var_2 d = Some v2"
    and "cleanField i" and "cleanField v1" and "cleanField v2"
    and "latentx1 d = Fin a" and "latentx2 d = Fin b"
    and "\<exists>k::int. a * 10 ^ 17 = of_int k" and "\<exists>k::int. b * 10 ^ 17 = of_int k"
  shows "exportable d"
  using assms by (simp add: exportable_def parseFloat_numToString_decimal)




end
